theory Spec2Isabelle
  imports Main "HOL-Library.AList"
begin

section \<open>Change trackers and subscription registry of the Figma Telegram bot\<close>

text \<open>
  The three stateful classes of the bot are embedded with explicit state passing:
  \<^item> \<open>FigmaVersionTracker\<close> (utils/version_tracker.py),
  \<^item> \<open>FigmaCommentTracker\<close> (utils/comment_tracker.py),
  \<^item> \<open>SubscriptionManager\<close> (utils/subscription_manager.py).

  A Python \<open>dict\<close> keeps its keys in insertion order and the bot iterates over them, so a
  dict is an association list: \<open>k in d\<close> is \<open>map_of d k \<noteq> None\<close>, the assignment
  \<open>d[k] = v\<close> is \<open>AList.update k v d\<close> (in place for a present key, appended for a new
  one), \<open>del d[k]\<close> is \<open>AList.delete k d\<close>, and mutating the value stored under a present
  key in place is \<open>AList.map_entry\<close>. The keys of a dict are pairwise different; where a
  property depends on that, it is the hypothesis \<open>distinct (map fst d)\<close>.

  A Python \<open>str\<close> is a \<open>string\<close> and is falsy exactly when it is empty; \<open>set\<close> is a HOL
  set; the \<open>int\<close> chat id is an \<open>int\<close>. Calls to \<open>logger\<close> are left out.
\<close>

subsection \<open>The API client and the effects of the classes\<close>

text \<open>
  A comment is a JSON object. The trackers read its \<open>id\<close> with \<open>comment.get("id")\<close>, which
  is \<open>None\<close> when the key is missing; the other fields are only passed on.
\<close>

record comment =
  comment_id :: "string option"
  message :: string

text \<open>
  \<open>FigmaClient\<close> is an external collaborator. \<open>get_file_version\<close> returns the version of
  a file or the empty string on any error (client.py, lines 77 to 82);
  \<open>get_file_comments\<close> returns the list of comments. The record holds what the API answers
  during one operation of a tracker.
\<close>

record figma_client =
  get_file_version :: "string \<Rightarrow> string"
  get_file_comments :: "string \<Rightarrow> comment list"

text \<open>
  The classes act on the outside world by calling the client and by rewriting their
  storage file. Each state carries the list of these events, in the order they happen; a
  save records what is handed to \<open>json.dump\<close> (an \<open>IOError\<close> of the write is caught and
  logged and changes nothing in memory).
\<close>

datatype io_event =
    Get_file_version string
  | Get_file_comments string
  | Save_versions "(string \<times> string) list"
  | Save_comments "(string \<times> string set) list"
  | Save_subscriptions "(int \<times> string set) list" "(int \<times> string set) list"

subsection \<open>FigmaVersionTracker\<close>

record version_tracker =
  versions :: "(string \<times> string) list"
  vt_io :: "io_event list"

definition fetch_version :: "figma_client \<Rightarrow> string \<Rightarrow> version_tracker \<Rightarrow> string \<times> version_tracker" where
  "fetch_version client file_key s =
     (get_file_version client file_key, s\<lparr>vt_io := vt_io s @ [Get_file_version file_key]\<rparr>)"

definition save_versions :: "version_tracker \<Rightarrow> version_tracker" where
  "save_versions s = s\<lparr>vt_io := vt_io s @ [Save_versions (versions s)]\<rparr>"

definition add_file_to_track_vt :: "figma_client \<Rightarrow> string \<Rightarrow> version_tracker \<Rightarrow> version_tracker" where
  "add_file_to_track_vt client file_key s =
     (case map_of (versions s) file_key of
        Some _ \<Rightarrow> s
      | None \<Rightarrow>
          (let (version, s1) = fetch_version client file_key s in
           if version \<noteq> []
           then save_versions (s1\<lparr>versions := AList.update file_key version (versions s1)\<rparr>)
           else s1))"

definition remove_file_from_track_vt :: "string \<Rightarrow> version_tracker \<Rightarrow> version_tracker" where
  "remove_file_from_track_vt file_key s =
     (case map_of (versions s) file_key of
        Some _ \<Rightarrow> save_versions (s\<lparr>versions := AList.delete file_key (versions s)\<rparr>)
      | None \<Rightarrow> s)"

text \<open>
  \<open>check_file_updates\<close> returns the tuple (changed, old version, new version), where
  Python's \<open>None\<close> is \<open>None\<close>, together with the state it leaves.
\<close>

definition check_file_updates ::
  "figma_client \<Rightarrow> string \<Rightarrow> version_tracker \<Rightarrow> (bool \<times> string option \<times> string option) \<times> version_tracker" where
  "check_file_updates client file_key s =
     (case map_of (versions s) file_key of
        None \<Rightarrow> ((False, None, None), s)
      | Some old_version \<Rightarrow>
          (let (new_version, s1) = fetch_version client file_key s in
           if new_version = [] then ((False, Some old_version, None), s1)
           else if old_version \<noteq> new_version
           then ((True, Some old_version, Some new_version),
                 save_versions (s1\<lparr>versions := AList.update file_key new_version (versions s1)\<rparr>))
           else ((False, Some old_version, Some new_version), s1)))"

text \<open>
  An entry of the list that \<open>check_all_updates\<close> returns: a dict with the keys
  \<open>file_key\<close>, \<open>old_version\<close> and \<open>new_version\<close>.
\<close>

record updated_file =
  file_key_entry :: string
  old_version_entry :: "string option"
  new_version_entry :: "string option"

text \<open>
  The loop of \<open>check_all_updates\<close> over the snapshot \<open>list(self.versions.keys())\<close>, with
  the list \<open>updated_files\<close> built so far.
\<close>

fun check_all_loop ::
  "figma_client \<Rightarrow> string list \<Rightarrow> version_tracker \<Rightarrow> updated_file list \<Rightarrow> updated_file list \<times> version_tracker" where
  "check_all_loop client [] s updated_files = (updated_files, s)"
| "check_all_loop client (k # ks) s updated_files =
     (let ((updated, old, new), s1) = check_file_updates client k s in
      check_all_loop client ks s1
        (if updated
         then updated_files @ [\<lparr>file_key_entry = k, old_version_entry = old, new_version_entry = new\<rparr>]
         else updated_files))"

definition check_all_updates :: "figma_client \<Rightarrow> version_tracker \<Rightarrow> updated_file list \<times> version_tracker" where
  "check_all_updates client s = check_all_loop client (map fst (versions s)) s []"

subsection \<open>FigmaCommentTracker\<close>

record comment_tracker =
  comments :: "(string \<times> string set) list"
  ct_io :: "io_event list"

definition fetch_comments :: "figma_client \<Rightarrow> string \<Rightarrow> comment_tracker \<Rightarrow> comment list \<times> comment_tracker" where
  "fetch_comments client file_key s =
     (get_file_comments client file_key, s\<lparr>ct_io := ct_io s @ [Get_file_comments file_key]\<rparr>)"

definition save_comments :: "comment_tracker \<Rightarrow> comment_tracker" where
  "save_comments s = s\<lparr>ct_io := ct_io s @ [Save_comments (comments s)]\<rparr>"

text \<open>
  The set comprehension of \<open>add_file_to_track\<close>:
  \<^verbatim>\<open>{comment.get("id") for comment in current_comments if comment.get("id")}\<close>.
  An \<open>id\<close> that is missing or empty is falsy and is left out.
\<close>

fun comment_ids :: "comment list \<Rightarrow> string set" where
  "comment_ids [] = {}"
| "comment_ids (c # cs) =
     (case comment_id c of
        None \<Rightarrow> comment_ids cs
      | Some i \<Rightarrow> if i \<noteq> [] then insert i (comment_ids cs) else comment_ids cs)"

definition add_file_to_track_ct :: "figma_client \<Rightarrow> string \<Rightarrow> comment_tracker \<Rightarrow> comment_tracker" where
  "add_file_to_track_ct client file_key s =
     (let (current_comments, s1) = fetch_comments client file_key s;
          ids = comment_ids current_comments;
          s2 = (case map_of (comments s1) file_key of
                  Some _ \<Rightarrow> s1\<lparr>comments := AList.map_entry file_key (\<lambda>seen. seen \<union> ids) (comments s1)\<rparr>
                | None \<Rightarrow> s1\<lparr>comments := AList.update file_key ids (comments s1)\<rparr>)
      in save_comments s2)"

definition remove_file_from_track_ct :: "string \<Rightarrow> comment_tracker \<Rightarrow> comment_tracker" where
  "remove_file_from_track_ct file_key s =
     (case map_of (comments s) file_key of
        Some _ \<Rightarrow> save_comments (s\<lparr>comments := AList.delete file_key (comments s)\<rparr>)
      | None \<Rightarrow> s)"

text \<open>
  The loop of \<open>check_file_comments\<close> over the fetched comments. \<open>known_comment_ids\<close> is the
  set object stored in \<open>self.comments[file_key]\<close>, so an \<open>add\<close> in the loop is seen by the
  tests of the later iterations.
\<close>

fun new_comments_loop :: "comment list \<Rightarrow> string set \<Rightarrow> comment list \<Rightarrow> string set \<times> comment list" where
  "new_comments_loop [] known_comment_ids new_comments = (known_comment_ids, new_comments)"
| "new_comments_loop (c # cs) known_comment_ids new_comments =
     (case comment_id c of
        None \<Rightarrow> new_comments_loop cs known_comment_ids new_comments
      | Some i \<Rightarrow>
          if i \<noteq> [] \<and> i \<notin> known_comment_ids
          then new_comments_loop cs (insert i known_comment_ids) (new_comments @ [c])
          else new_comments_loop cs known_comment_ids new_comments)"

text \<open>
  \<open>check_file_comments\<close> returns the tuple (new comments, has new comments) and the state
  it leaves. The stored set is the one the loop has mutated; the storage file is rewritten
  only when a new comment was found.
\<close>

definition check_file_comments ::
  "figma_client \<Rightarrow> string \<Rightarrow> comment_tracker \<Rightarrow> (comment list \<times> bool) \<times> comment_tracker" where
  "check_file_comments client file_key s =
     (case map_of (comments s) file_key of
        None \<Rightarrow> (([], False), s)
      | Some stored \<Rightarrow>
          (let (current_comments, s1) = fetch_comments client file_key s;
               (known_comment_ids, new_comments) = new_comments_loop current_comments stored [];
               s2 = s1\<lparr>comments := AList.update file_key known_comment_ids (comments s1)\<rparr>
           in if new_comments \<noteq> [] then ((new_comments, True), save_comments s2)
              else (([], False), s2)))"

definition reset_comments_for_file :: "string \<Rightarrow> comment_tracker \<Rightarrow> bool \<times> comment_tracker" where
  "reset_comments_for_file file_key s =
     (case map_of (comments s) file_key of
        None \<Rightarrow> (False, s)
      | Some _ \<Rightarrow> (True, save_comments (s\<lparr>comments := AList.update file_key {} (comments s)\<rparr>)))"

subsection \<open>SubscriptionManager\<close>

record subscription_manager =
  user_subscriptions :: "(int \<times> string set) list"
  comment_subscriptions :: "(int \<times> string set) list"
  sm_io :: "io_event list"

text \<open>The manager that \<open>__init__\<close> builds when there is no storage file yet.\<close>

definition new_manager :: subscription_manager where
  "new_manager = \<lparr>user_subscriptions = [], comment_subscriptions = [], sm_io = []\<rparr>"

definition save_subscriptions :: "subscription_manager \<Rightarrow> subscription_manager" where
  "save_subscriptions s =
     s\<lparr>sm_io := sm_io s @ [Save_subscriptions (user_subscriptions s) (comment_subscriptions s)]\<rparr>"

definition add_file_subscription :: "int \<Rightarrow> string \<Rightarrow> subscription_manager \<Rightarrow> subscription_manager" where
  "add_file_subscription chat_id file_key s =
     (let s1 = (case map_of (user_subscriptions s) chat_id of
                  None \<Rightarrow> s\<lparr>user_subscriptions := AList.update chat_id {} (user_subscriptions s)\<rparr>
                | Some _ \<Rightarrow> s);
          s2 = s1\<lparr>user_subscriptions :=
                    AList.map_entry chat_id (insert file_key) (user_subscriptions s1)\<rparr>
      in save_subscriptions s2)"

text \<open>
  In the removals the entry is read again after the \<open>remove\<close>; the key is present there
  (it was found by the guard), so the lookup cannot raise.
\<close>

definition remove_file_subscription :: "int \<Rightarrow> string \<Rightarrow> subscription_manager \<Rightarrow> bool \<times> subscription_manager" where
  "remove_file_subscription chat_id file_key s =
     (case map_of (user_subscriptions s) chat_id of
        None \<Rightarrow> (False, s)
      | Some file_keys \<Rightarrow>
          if file_key \<notin> file_keys then (False, s)
          else
            (let s1 = s\<lparr>user_subscriptions :=
                          AList.map_entry chat_id (\<lambda>fs. fs - {file_key}) (user_subscriptions s)\<rparr>;
                 s2 = (case map_of (user_subscriptions s1) chat_id of
                         Some fs \<Rightarrow>
                           if fs = {}
                           then s1\<lparr>user_subscriptions := AList.delete chat_id (user_subscriptions s1)\<rparr>
                           else s1
                       | None \<Rightarrow> s1)
             in (True, save_subscriptions s2)))"

definition add_comment_subscription :: "int \<Rightarrow> string \<Rightarrow> subscription_manager \<Rightarrow> subscription_manager" where
  "add_comment_subscription chat_id file_key s =
     (let s1 = (case map_of (comment_subscriptions s) chat_id of
                  None \<Rightarrow> s\<lparr>comment_subscriptions := AList.update chat_id {} (comment_subscriptions s)\<rparr>
                | Some _ \<Rightarrow> s);
          s2 = s1\<lparr>comment_subscriptions :=
                    AList.map_entry chat_id (insert file_key) (comment_subscriptions s1)\<rparr>
      in save_subscriptions s2)"

definition remove_comment_subscription :: "int \<Rightarrow> string \<Rightarrow> subscription_manager \<Rightarrow> bool \<times> subscription_manager" where
  "remove_comment_subscription chat_id file_key s =
     (case map_of (comment_subscriptions s) chat_id of
        None \<Rightarrow> (False, s)
      | Some file_keys \<Rightarrow>
          if file_key \<notin> file_keys then (False, s)
          else
            (let s1 = s\<lparr>comment_subscriptions :=
                          AList.map_entry chat_id (\<lambda>fs. fs - {file_key}) (comment_subscriptions s)\<rparr>;
                 s2 = (case map_of (comment_subscriptions s1) chat_id of
                         Some fs \<Rightarrow>
                           if fs = {}
                           then s1\<lparr>comment_subscriptions := AList.delete chat_id (comment_subscriptions s1)\<rparr>
                           else s1
                       | None \<Rightarrow> s1)
             in (True, save_subscriptions s2)))"

definition get_file_subscribers :: "string \<Rightarrow> subscription_manager \<Rightarrow> int list" where
  "get_file_subscribers file_key s =
     map fst (filter (\<lambda>(chat_id, file_keys). file_key \<in> file_keys) (user_subscriptions s))"

definition get_comment_subscribers :: "string \<Rightarrow> subscription_manager \<Rightarrow> int list" where
  "get_comment_subscribers file_key s =
     map fst (filter (\<lambda>(chat_id, file_keys). file_key \<in> file_keys) (comment_subscriptions s))"

text \<open>A call of one of the four mutating methods, and a sequence of such calls.\<close>

datatype subscription_call =
    Add_file_subscription int string
  | Remove_file_subscription int string
  | Add_comment_subscription int string
  | Remove_comment_subscription int string

fun run_call :: "subscription_call \<Rightarrow> subscription_manager \<Rightarrow> subscription_manager" where
  "run_call (Add_file_subscription chat_id file_key) s = add_file_subscription chat_id file_key s"
| "run_call (Remove_file_subscription chat_id file_key) s = snd (remove_file_subscription chat_id file_key s)"
| "run_call (Add_comment_subscription chat_id file_key) s = add_comment_subscription chat_id file_key s"
| "run_call (Remove_comment_subscription chat_id file_key) s = snd (remove_comment_subscription chat_id file_key s)"

fun run_calls :: "subscription_call list \<Rightarrow> subscription_manager \<Rightarrow> subscription_manager" where
  "run_calls [] s = s"
| "run_calls (c # cs) s = run_calls cs (run_call c s)"

subsection \<open>Example states\<close>

definition example_versions :: version_tracker where
  "example_versions = \<lparr>versions = [(''abc123'', ''v1''), (''def456'', ''v7'')], vt_io = []\<rparr>"

definition example_live :: figma_client where
  "example_live =
     \<lparr>get_file_version = (\<lambda>k. if k = ''abc123'' then ''v2'' else []),
      get_file_comments = (\<lambda>k. [])\<rparr>"

definition example_comments :: comment_tracker where
  "example_comments = \<lparr>comments = [(''abc123'', {''c1''})], ct_io = []\<rparr>"

definition example_feed :: figma_client where
  "example_feed =
     \<lparr>get_file_version = (\<lambda>k. []),
      get_file_comments = (\<lambda>k. if k = ''abc123''
         then [\<lparr>comment_id = Some ''c1'', message = ''first''\<rparr>,
               \<lparr>comment_id = Some ''c2'', message = ''second''\<rparr>]
         else [])\<rparr>"

definition irregular_feed :: figma_client where
  "irregular_feed =
     \<lparr>get_file_version = (\<lambda>k. []),
      get_file_comments = (\<lambda>k. if k = ''abc123''
         then [\<lparr>comment_id = Some ''c1'', message = ''first''\<rparr>,
               \<lparr>comment_id = Some ''c2'', message = ''second''\<rparr>,
               \<lparr>comment_id = Some ''c2'', message = ''second again''\<rparr>,
               \<lparr>comment_id = Some [], message = ''empty id''\<rparr>]
         else [])\<rparr>"

definition example_manager :: subscription_manager where
  "example_manager =
     \<lparr>user_subscriptions = [(7, {''abc123''}), (8, {''abc123'', ''def456''})],
      comment_subscriptions = [],
      sm_io = []\<rparr>"

definition example_calls :: "subscription_call list" where
  "example_calls =
     [Add_file_subscription 7 ''abc123'', Add_comment_subscription 7 ''abc123'',
      Add_file_subscription 7 ''def456'', Remove_file_subscription 7 ''abc123'',
      Remove_comment_subscription 7 ''abc123'']"

section \<open>Properties of the version tracker\<close>

lemma check_file_updates_untracked:
  "map_of (versions s) k = None \<Longrightarrow> check_file_updates client k s = ((False, None, None), s)"
  by (simp add: check_file_updates_def)

lemma versions_check_file_updates:
  "versions (snd (check_file_updates client k s)) =
     (case map_of (versions s) k of
        None \<Rightarrow> versions s
      | Some v0 \<Rightarrow> if get_file_version client k \<noteq> [] \<and> v0 \<noteq> get_file_version client k
                  then AList.update k (get_file_version client k) (versions s) else versions s)"
  by (simp add: check_file_updates_def fetch_version_def save_versions_def Let_def split: option.splits)

lemma fst_check_file_updates:
  "fst (check_file_updates client k s) =
     (case map_of (versions s) k of
        None \<Rightarrow> (False, None, None)
      | Some v0 \<Rightarrow> if get_file_version client k = [] then (False, Some v0, None)
                  else (v0 \<noteq> get_file_version client k, Some v0, Some (get_file_version client k)))"
  by (simp add: check_file_updates_def fetch_version_def save_versions_def Let_def split: option.splits)

text \<open>
  The methods keep the keys of \<open>versions\<close> pairwise different, as a dict does.
\<close>

lemma distinct_versions_add_file_to_track:
  "distinct (map fst (versions s)) \<Longrightarrow>
   distinct (map fst (versions (add_file_to_track_vt client k s)))"
  by (simp add: add_file_to_track_vt_def fetch_version_def save_versions_def distinct_update
        split: option.splits)

lemma distinct_versions_remove_file_from_track:
  "distinct (map fst (versions s)) \<Longrightarrow>
   distinct (map fst (versions (remove_file_from_track_vt k s)))"
  by (simp add: remove_file_from_track_vt_def save_versions_def distinct_delete
        split: option.splits)

lemma distinct_versions_check_file_updates:
  "distinct (map fst (versions s)) \<Longrightarrow>
   distinct (map fst (versions (snd (check_file_updates client k s))))"
  by (simp add: versions_check_file_updates distinct_update split: option.splits)

lemma check_all_loop_entries:
  "distinct (map fst ps) \<Longrightarrow> (\<forall>(k, v) \<in> set ps. map_of (versions s) k = Some v) \<Longrightarrow>
   fst (check_all_loop client (map fst ps) s acc) =
     acc @ map (\<lambda>(k, v). \<lparr>file_key_entry = k, old_version_entry = Some v,
                             new_version_entry = Some (get_file_version client k)\<rparr>)
             (filter (\<lambda>(k, v). get_file_version client k \<noteq> [] \<and> get_file_version client k \<noteq> v) ps)"
proof (induction ps arbitrary: s acc)
  case Nil
  then show ?case by simp
next
  case (Cons p ps)
  obtain k v where p: "p = (k, v)" by (cases p)
  obtain r s1 where c: "check_file_updates client k s = (r, s1)" by (cases "check_file_updates client k s")
  have kv: "map_of (versions s) k = Some v" using Cons.prems(2) p by auto
  have r: "r = (if get_file_version client k = [] then (False, Some v, None)
                else (v \<noteq> get_file_version client k, Some v, Some (get_file_version client k)))"
    using fst_check_file_updates[of client k s] c kv by simp
  have vs1: "versions s1 = (if get_file_version client k \<noteq> [] \<and> v \<noteq> get_file_version client k
                  then AList.update k (get_file_version client k) (versions s) else versions s)"
    using versions_check_file_updates[of client k s] c kv by simp
  have knot: "k \<notin> fst ` set ps" using Cons.prems(1) p by simp
  have pres: "\<forall>(k', v') \<in> set ps. map_of (versions s1) k' = Some v'"
  proof clarify
    fix k' v' assume in_ps: "(k', v') \<in> set ps"
    then have "k' \<noteq> k" using knot by force
    moreover have "map_of (versions s) k' = Some v'" using Cons.prems(2) in_ps by auto
    ultimately show "map_of (versions s1) k' = Some v'"
      by (simp add: vs1 update_conv')
  qed
  have d: "distinct (map fst ps)" using Cons.prems(1) by simp
  show ?case
    using Cons.IH[OF d pres] c r p by auto
qed

lemma check_all_loop_keys:
  "file_key_entry ` set (fst (check_all_loop client ks s acc))
     \<subseteq> file_key_entry ` set acc \<union> {k \<in> set ks. get_file_version client k \<noteq> []}"
proof (induction ks arbitrary: s acc)
  case Nil
  then show ?case by simp
next
  case (Cons k ks)
  obtain r s1 where c: "check_file_updates client k s = (r, s1)" by (cases "check_file_updates client k s")
  have r: "fst r \<Longrightarrow> get_file_version client k \<noteq> []"
    using fst_check_file_updates[of client k s] c by (auto split: option.splits if_splits)
  define acc' where "acc' = (if fst r then acc @ [\<lparr>file_key_entry = k, old_version_entry = fst (snd r),
                                                     new_version_entry = snd (snd r)\<rparr>] else acc)"
  have step: "check_all_loop client (k # ks) s acc = check_all_loop client ks s1 acc'"
    using c by (cases r) (simp add: acc'_def)
  have "file_key_entry ` set acc' \<subseteq> file_key_entry ` set acc \<union> {k' \<in> set (k # ks). get_file_version client k' \<noteq> []}"
    using r by (auto simp: acc'_def)
  moreover have "file_key_entry ` set (fst (check_all_loop client ks s1 acc'))
      \<subseteq> file_key_entry ` set acc' \<union> {k' \<in> set ks. get_file_version client k' \<noteq> []}"
    by (rule Cons.IH)
  moreover have "{k' \<in> set ks. get_file_version client k' \<noteq> []}
      \<subseteq> {k' \<in> set (k # ks). get_file_version client k' \<noteq> []}"
    by auto
  ultimately show ?case
    unfolding step by blast
qed

lemma check_all_loop_baseline:
  "get_file_version client k = [] \<Longrightarrow>
   map_of (versions (snd (check_all_loop client ks s acc))) k = map_of (versions s) k"
proof (induction ks arbitrary: s acc)
  case Nil
  then show ?case by simp
next
  case (Cons k' ks)
  obtain r s1 where c: "check_file_updates client k' s = (r, s1)" by (cases "check_file_updates client k' s")
  have "map_of (versions s1) k = map_of (versions s) k"
    using versions_check_file_updates[of client k' s] c Cons.prems
    by (auto simp: update_conv' split: option.splits)
  then show ?case
    using Cons.IH[OF Cons.prems, of s1] c by (cases r) simp
qed

text \<open>
  Claim C1. When the version fetch of a tracked file fails (the client returns the empty
  string), \<open>check_file_updates\<close> returns \<open>(False, old version, None)\<close> and leaves the
  stored versions as they were; in a sweep of \<open>check_all_updates\<close> with that answer the
  file is not in the returned list and its baseline is still the old one afterwards.
\<close>

theorem check_file_updates_fetch_failure:
  assumes "map_of (versions s) k = Some v0" and "get_file_version client k = []"
  shows "fst (check_file_updates client k s) = (False, Some v0, None)
       \<and> versions (snd (check_file_updates client k s)) = versions s
       \<and> k \<notin> file_key_entry ` set (fst (check_all_updates client s))
       \<and> map_of (versions (snd (check_all_updates client s))) k = Some v0"
proof -
  have "fst (check_file_updates client k s) = (False, Some v0, None)"
    using assms by (simp add: fst_check_file_updates)
  moreover have "versions (snd (check_file_updates client k s)) = versions s"
    using assms by (simp add: versions_check_file_updates)
  moreover have "k \<notin> file_key_entry ` set (fst (check_all_updates client s))"
    using check_all_loop_keys[of client "map fst (versions s)" s "[]"] assms(2)
    by (auto simp: check_all_updates_def)
  moreover have "map_of (versions (snd (check_all_updates client s))) k = Some v0"
    using check_all_loop_baseline[OF assms(2)] assms(1) by (simp add: check_all_updates_def)
  ultimately show ?thesis by simp
qed

theorem check_file_updates_fetch_failure_witness:
  "map_of (versions example_versions) ''def456'' = Some ''v7''
   \<and> get_file_version example_live ''def456'' = []
   \<and> fst (check_file_updates example_live ''def456'' example_versions) = (False, Some ''v7'', None)
   \<and> versions (snd (check_file_updates example_live ''def456'' example_versions)) = versions example_versions
   \<and> ''def456'' \<notin> file_key_entry ` set (fst (check_all_updates example_live example_versions))
   \<and> map_of (versions (snd (check_all_updates example_live example_versions))) ''def456'' = Some ''v7''"
proof -
  have h1: "map_of (versions example_versions) ''def456'' = Some ''v7''"
    by (simp add: example_versions_def)
  have h2: "get_file_version example_live ''def456'' = []"
    by (simp add: example_live_def)
  show ?thesis
    using check_file_updates_fetch_failure[OF h1 h2] h1 h2 by simp
qed

text \<open>
  Claim C2. For a tracked file with baseline \<open>v0\<close> and a fetched version \<open>v1\<close> that is
  not empty and differs from \<open>v0\<close>, \<open>check_file_updates\<close> returns
  \<open>(True, v0, v1)\<close> and the state it leaves has the baseline \<open>v1\<close>; a following check,
  while the live version is still \<open>v1\<close>, reports no change.
\<close>

theorem check_file_updates_detects_change:
  assumes "map_of (versions s) k = Some v0"
    and "get_file_version client k = v1" and "v1 \<noteq> []" and "v1 \<noteq> v0"
    and "get_file_version client' k = v1"
  shows "fst (check_file_updates client k s) = (True, Some v0, Some v1)
       \<and> map_of (versions (snd (check_file_updates client k s))) k = Some v1
       \<and> fst (check_file_updates client' k (snd (check_file_updates client k s)))
           = (False, Some v1, Some v1)"
proof -
  let ?s1 = "snd (check_file_updates client k s)"
  have a: "fst (check_file_updates client k s) = (True, Some v0, Some v1)"
    using assms by (auto simp: fst_check_file_updates)
  have b: "map_of (versions ?s1) k = Some v1"
    using assms by (auto simp: versions_check_file_updates update_conv')
  have "fst (check_file_updates client' k ?s1) = (False, Some v1, Some v1)"
    using b assms(3,5) by (simp add: fst_check_file_updates)
  with a b show ?thesis by simp
qed

theorem check_file_updates_detects_change_witness:
  "map_of (versions example_versions) ''abc123'' = Some ''v1''
   \<and> get_file_version example_live ''abc123'' = ''v2'' \<and> ''v2'' \<noteq> [] \<and> ''v2'' \<noteq> ''v1''
   \<and> fst (check_file_updates example_live ''abc123'' example_versions) = (True, Some ''v1'', Some ''v2'')
   \<and> map_of (versions (snd (check_file_updates example_live ''abc123'' example_versions))) ''abc123''
       = Some ''v2''
   \<and> fst (check_file_updates example_live ''abc123''
            (snd (check_file_updates example_live ''abc123'' example_versions)))
       = (False, Some ''v2'', Some ''v2'')"
proof -
  have h1: "map_of (versions example_versions) ''abc123'' = Some ''v1''"
    by (simp add: example_versions_def)
  have h2: "get_file_version example_live ''abc123'' = ''v2''"
    by (simp add: example_live_def)
  have h3: "''v2'' \<noteq> []" and h4: "''v2'' \<noteq> ''v1''" by simp_all
  show ?thesis
    using check_file_updates_detects_change[OF h1 h2 h3 h4 h2] h1 h2 by simp
qed

text \<open>
  Claim C3. \<open>add_file_to_track\<close> of the version tracker on a file that is already
  tracked returns at once: the whole state, and so the stored baseline and the versions
  dict, is as before, whatever the client would answer (no fetch and no save happens).
\<close>

theorem add_file_to_track_twice_keeps_baseline:
  assumes "map_of (versions s) k = Some v0"
  shows "add_file_to_track_vt client k s = s"
  using assms by (simp add: add_file_to_track_vt_def)

theorem add_file_to_track_twice_keeps_baseline_witness:
  "map_of (versions example_versions) ''abc123'' = Some ''v1''
   \<and> add_file_to_track_vt example_live ''abc123'' example_versions = example_versions"
proof -
  have h1: "map_of (versions example_versions) ''abc123'' = Some ''v1''"
    by (simp add: example_versions_def)
  show ?thesis
    using add_file_to_track_twice_keeps_baseline[OF h1, of example_live] h1 by simp
qed

text \<open>
  Claim C9. When the fetch fails in \<open>add_file_to_track\<close> of the version tracker on a file
  that is not tracked yet, the versions dict is unchanged and the file stays untracked: a
  following \<open>check_file_updates\<close> on it returns \<open>(False, None, None)\<close> and does nothing,
  whatever the client answers then.
\<close>

theorem add_file_to_track_fetch_failure:
  assumes "map_of (versions s) k = None" and "get_file_version client k = []"
  shows "versions (add_file_to_track_vt client k s) = versions s
       \<and> map_of (versions (add_file_to_track_vt client k s)) k = None
       \<and> fst (check_file_updates client' k (add_file_to_track_vt client k s)) = (False, None, None)
       \<and> snd (check_file_updates client' k (add_file_to_track_vt client k s))
           = add_file_to_track_vt client k s"
proof -
  have v: "versions (add_file_to_track_vt client k s) = versions s"
    using assms by (simp add: add_file_to_track_vt_def fetch_version_def)
  then have n: "map_of (versions (add_file_to_track_vt client k s)) k = None"
    using assms(1) by simp
  show ?thesis
    using v n by (simp add: check_file_updates_untracked)
qed

theorem add_file_to_track_fetch_failure_witness:
  "map_of (versions example_versions) ''ghi789'' = None
   \<and> get_file_version example_live ''ghi789'' = []
   \<and> versions (add_file_to_track_vt example_live ''ghi789'' example_versions) = versions example_versions
   \<and> map_of (versions (add_file_to_track_vt example_live ''ghi789'' example_versions)) ''ghi789'' = None
   \<and> fst (check_file_updates example_live ''ghi789''
            (add_file_to_track_vt example_live ''ghi789'' example_versions)) = (False, None, None)
   \<and> snd (check_file_updates example_live ''ghi789''
            (add_file_to_track_vt example_live ''ghi789'' example_versions))
       = add_file_to_track_vt example_live ''ghi789'' example_versions"
proof -
  have h1: "map_of (versions example_versions) ''ghi789'' = None"
    by (simp add: example_versions_def)
  have h2: "get_file_version example_live ''ghi789'' = []"
    by (simp add: example_live_def)
  show ?thesis
    using add_file_to_track_fetch_failure[OF h1 h2, of example_live] h1 h2 by simp
qed

text \<open>
  Claim C8. One sweep of \<open>check_all_updates\<close> returns, in the order of the dict, one
  entry for each tracked file whose fetched version is not empty and differs from its
  baseline, with that baseline as old and the fetched version as new, and nothing else; no
  file key occurs twice in the list.
\<close>

theorem check_all_updates_changed_once:
  assumes "distinct (map fst (versions s))"
  shows "fst (check_all_updates client s) =
           map (\<lambda>(k, v). \<lparr>file_key_entry = k, old_version_entry = Some v,
                             new_version_entry = Some (get_file_version client k)\<rparr>)
             (filter (\<lambda>(k, v). get_file_version client k \<noteq> [] \<and> get_file_version client k \<noteq> v)
                (versions s))
       \<and> distinct (map file_key_entry (fst (check_all_updates client s)))"
proof -
  let ?ch = "\<lambda>(k, v). get_file_version client k \<noteq> [] \<and> get_file_version client k \<noteq> v"
  let ?mk = "\<lambda>(k, v). \<lparr>file_key_entry = k, old_version_entry = Some v,
                             new_version_entry = Some (get_file_version client k)\<rparr>"
  have look: "\<forall>(k, v) \<in> set (versions s). map_of (versions s) k = Some v"
    using assms by auto
  have eq: "fst (check_all_updates client s) = map ?mk (filter ?ch (versions s))"
    using check_all_loop_entries[OF assms look, of client "[]"]
    by (simp add: check_all_updates_def)
  have keys: "file_key_entry \<circ> ?mk = fst"
    by (auto simp: fun_eq_iff)
  have "distinct (map fst (filter ?ch (versions s)))"
    using assms by (rule distinct_map_filter)
  then have "distinct (map file_key_entry (map ?mk (filter ?ch (versions s))))"
    by (simp only: map_map keys)
  then show ?thesis using eq by simp
qed

theorem check_all_updates_changed_once_witness:
  "distinct (map fst (versions example_versions))
   \<and> fst (check_all_updates example_live example_versions)
       = [\<lparr>file_key_entry = ''abc123'', old_version_entry = Some ''v1'', new_version_entry = Some ''v2''\<rparr>]
   \<and> distinct (map file_key_entry (fst (check_all_updates example_live example_versions)))"
proof -
  have h1: "distinct (map fst (versions example_versions))"
    by (simp add: example_versions_def)
  have "map (\<lambda>(k, v). \<lparr>file_key_entry = k, old_version_entry = Some v,
                             new_version_entry = Some (get_file_version example_live k)\<rparr>)
             (filter (\<lambda>(k, v). get_file_version example_live k \<noteq> [] \<and> get_file_version example_live k \<noteq> v)
                (versions example_versions))
        = [\<lparr>file_key_entry = ''abc123'', old_version_entry = Some ''v1'', new_version_entry = Some ''v2''\<rparr>]"
    by (simp add: example_versions_def example_live_def)
  then show ?thesis
    using check_all_updates_changed_once[OF h1, of example_live] h1 by simp
qed

section \<open>Properties of the comment tracker\<close>

lemma comment_ids_nonempty:
  "comment_ids cs = {i. i \<noteq> [] \<and> Some i \<in> comment_id ` set cs}"
  by (induction cs) (auto split: option.splits)

lemma fst_new_comments_loop:
  "fst (new_comments_loop cs known acc) = known \<union> comment_ids cs"
  by (induction cs arbitrary: known acc) (auto split: option.splits)

lemma new_comments_loop_all_known:
  "comment_ids cs \<subseteq> known \<Longrightarrow> new_comments_loop cs known acc = (known, acc)"
  by (induction cs arbitrary: known acc) (auto split: option.splits if_splits)

lemma snd_new_comments_loop:
  "snd (new_comments_loop cs known acc) =
     acc @ map (\<lambda>j. cs ! j)
             (filter (\<lambda>j. case comment_id (cs ! j) of
                              None \<Rightarrow> False
                            | Some i \<Rightarrow> i \<noteq> [] \<and> i \<notin> known \<union> comment_ids (take j cs))
                [0..<length cs])"
proof (induction cs arbitrary: known acc)
  case Nil
  show ?case by simp
next
  case (Cons c cs)
  define known' where "known' = (case comment_id c of None \<Rightarrow> known
                        | Some i \<Rightarrow> if i \<noteq> [] \<and> i \<notin> known then insert i known else known)"
  define acc' where "acc' = (case comment_id c of None \<Rightarrow> acc
                        | Some i \<Rightarrow> if i \<noteq> [] \<and> i \<notin> known then acc @ [c] else acc)"
  let ?P = "\<lambda>kn xs j. case comment_id (xs ! j) of
                              None \<Rightarrow> False
                            | Some i \<Rightarrow> i \<noteq> [] \<and> i \<notin> kn \<union> comment_ids (take j xs)"
  have step: "new_comments_loop (c # cs) known acc = new_comments_loop cs known' acc'"
    by (simp add: known'_def acc'_def split: option.splits)
  have sets: "known \<union> comment_ids (c # xs) = known' \<union> comment_ids xs" for xs
    by (auto simp: known'_def split: option.splits)
  have shift: "?P known (c # cs) (Suc j) = ?P known' cs j" for j
    unfolding take_Suc_Cons nth_Cons_Suc sets[of "take j cs"] ..
  have zero: "?P known (c # cs) 0 \<longleftrightarrow> acc' = acc @ [c]"
    by (auto simp: acc'_def split: option.splits)
  have zero': "\<not> ?P known (c # cs) 0 \<Longrightarrow> acc' = acc"
    by (auto simp: acc'_def split: option.splits)
  have upt: "[0..<length (c # cs)] = 0 # map Suc [0..<length cs]"
    by (simp add: upt_conv_Cons map_Suc_upt del: upt_Suc)
  have "map (\<lambda>j. (c # cs) ! j) (filter (?P known (c # cs)) (map Suc [0..<length cs]))
        = map (\<lambda>j. cs ! j) (filter (?P known' cs) [0..<length cs])"
  proof -
    have Pfun: "?P known (c # cs) \<circ> Suc = ?P known' cs"
      by (rule ext) (simp only: o_apply shift)
    have nthfun: "(\<lambda>j. (c # cs) ! j) \<circ> Suc = (\<lambda>j. cs ! j)"
      by (rule ext) simp
    show ?thesis
      by (simp only: filter_map map_map Pfun nthfun)
  qed
  then have "acc @ map (\<lambda>j. (c # cs) ! j) (filter (?P known (c # cs)) [0..<length (c # cs)])
        = acc' @ map (\<lambda>j. cs ! j) (filter (?P known' cs) [0..<length cs])"
    unfolding upt using zero zero' by (cases "?P known (c # cs) 0") simp_all
  then show ?case
    unfolding step Cons.IH[of known' acc'] by simp
qed

lemma new_comments_loop_ids:
  "comment_id ` set (snd (new_comments_loop cs known acc))
     = comment_id ` set acc \<union> Some ` (comment_ids cs - known)"
  by (induction cs arbitrary: known acc) (auto split: option.splits)

lemma new_comments_loop_distinct:
  "distinct (map comment_id acc) \<Longrightarrow> comment_id ` set acc \<subseteq> Some ` known \<Longrightarrow>
   distinct (map comment_id (snd (new_comments_loop cs known acc)))"
proof (induction cs arbitrary: known acc)
  case Nil
  then show ?case by simp
next
  case (Cons c cs)
  show ?case
  proof (cases "comment_id c")
    case None
    then show ?thesis using Cons by simp
  next
    case (Some i)
    show ?thesis
    proof (cases "i \<noteq> [] \<and> i \<notin> known")
      case True
      have "Some i \<notin> comment_id ` set acc" using Cons.prems(2) True by auto
      then have d: "distinct (map comment_id (acc @ [c]))"
        using Cons.prems(1) Some by simp
      have sub: "comment_id ` set (acc @ [c]) \<subseteq> Some ` insert i known"
        using Cons.prems(2) Some by auto
      show ?thesis using Cons.IH[OF d sub] Some True by simp
    next
      case False
      then show ?thesis using Cons Some by auto
    qed
  qed
qed

text \<open>
  When every fetched comment has a non-empty id and no two share one, the loop returns
  the fetched comments whose id is not in the seen-set, as a plain filter.
\<close>

lemma new_comments_loop_unique_ids:
  "distinct (map comment_id cs) \<Longrightarrow> \<forall>c \<in> set cs. \<exists>i. comment_id c = Some i \<and> i \<noteq> [] \<Longrightarrow>
   snd (new_comments_loop cs known acc) = acc @ filter (\<lambda>c. comment_id c \<notin> Some ` known) cs"
proof (induction cs arbitrary: known acc)
  case Nil
  show ?case by simp
next
  case (Cons c cs)
  obtain i where i: "comment_id c = Some i" "i \<noteq> []" using Cons.prems(2) by auto
  have d: "distinct (map comment_id cs)" and fresh: "Some i \<notin> comment_id ` set cs"
    using Cons.prems(1) i by auto
  have wf: "\<forall>c \<in> set cs. \<exists>i. comment_id c = Some i \<and> i \<noteq> []" using Cons.prems(2) by simp
  have same: "filter (\<lambda>c. comment_id c \<notin> Some ` insert i known) cs
            = filter (\<lambda>c. comment_id c \<notin> Some ` known) cs"
  proof (rule filter_cong[OF refl])
    fix c' assume "c' \<in> set cs"
    then have "comment_id c' \<noteq> Some i" using fresh by force
    then show "(comment_id c' \<notin> Some ` insert i known) = (comment_id c' \<notin> Some ` known)"
      by auto
  qed
  show ?case
    using Cons.IH[OF d wf] i same by auto
qed

lemma check_file_comments_untracked:
  "map_of (comments s) k = None \<Longrightarrow> check_file_comments client k s = (([], False), s)"
  by (simp add: check_file_comments_def)

lemma fst_check_file_comments:
  "map_of (comments s) k = Some seen \<Longrightarrow>
   fst (check_file_comments client k s) =
     (snd (new_comments_loop (get_file_comments client k) seen []),
      snd (new_comments_loop (get_file_comments client k) seen []) \<noteq> [])"
  by (simp add: check_file_comments_def fetch_comments_def save_comments_def Let_def split: prod.splits)

lemma comments_check_file_comments:
  "map_of (comments s) k = Some seen \<Longrightarrow>
   comments (snd (check_file_comments client k s)) =
     AList.update k (seen \<union> comment_ids (get_file_comments client k)) (comments s)"
  using fst_new_comments_loop[of "get_file_comments client k" seen "[]"]
  by (auto simp: check_file_comments_def fetch_comments_def save_comments_def Let_def split: prod.splits)

lemma comments_reset:
  "map_of (comments s) k = Some seen \<Longrightarrow>
   reset_comments_for_file k s =
     (True, s\<lparr>comments := AList.update k {} (comments s),
              ct_io := ct_io s @ [Save_comments (AList.update k {} (comments s))]\<rparr>)"
  by (simp add: reset_comments_for_file_def save_comments_def)

text \<open>
  So on a fetch in which every comment has a non-empty id of its own,
  \<open>check_file_comments\<close> returns exactly the fetched comments whose id is absent from
  the stored seen-set.
\<close>

lemma check_file_comments_unique_ids:
  assumes "map_of (comments s) k = Some seen"
    and "distinct (map comment_id (get_file_comments client k))"
    and "\<forall>c \<in> set (get_file_comments client k). \<exists>i. comment_id c = Some i \<and> i \<noteq> []"
  shows "fst (fst (check_file_comments client k s))
           = filter (\<lambda>c. comment_id c \<notin> Some ` seen) (get_file_comments client k)"
  using new_comments_loop_unique_ids[OF assms(2,3), of seen "[]"]
  by (simp add: fst_check_file_comments[OF assms(1)])

text \<open>
  Claim C4, as the code has it. \<open>add_file_to_track\<close> of the comment tracker on a file that
  is already tracked stores the union of the seen-set and the non-empty ids of the freshly
  fetched comments (the set \<open>comment_ids\<close> of the source): every id known before is still
  known, and every fetched id that is not empty is added. A fetched id that is empty, or a
  comment without an id, adds nothing.
\<close>

theorem add_file_to_track_again_merges:
  assumes "map_of (comments s) k = Some seen"
  shows "map_of (comments (add_file_to_track_ct client k s)) k
           = Some (seen \<union> comment_ids (get_file_comments client k))
       \<and> comment_ids (get_file_comments client k)
           = {i. i \<noteq> [] \<and> Some i \<in> comment_id ` set (get_file_comments client k)}"
  using assms
  by (simp add: add_file_to_track_ct_def fetch_comments_def save_comments_def Let_def
        map_of_map_entry comment_ids_nonempty)

theorem add_file_to_track_again_merges_witness:
  "map_of (comments example_comments) ''abc123'' = Some {''c1''}
   \<and> map_of (comments (add_file_to_track_ct example_feed ''abc123'' example_comments)) ''abc123''
       = Some {''c1'', ''c2''}"
proof -
  have h1: "map_of (comments example_comments) ''abc123'' = Some {''c1''}"
    by (simp add: example_comments_def)
  have ids: "{''c1''} \<union> comment_ids (get_file_comments example_feed ''abc123'') = {''c1'', ''c2''}"
    by (auto simp: example_feed_def)
  show ?thesis
    using add_file_to_track_again_merges[OF h1, of example_feed] h1 ids by simp
qed

text \<open>
  The claim as it is worded (the union with the freshly fetched ids, every fetched id is
  added) fails on a fetch that carries an empty id: the empty id is fetched and is not in
  the seen-set afterwards.
\<close>

theorem add_file_to_track_again_merges_counterexample:
  "map_of (comments example_comments) ''abc123'' = Some {''c1''}
   \<and> get_file_comments irregular_feed ''abc123''
       = [\<lparr>comment_id = Some ''c1'', message = ''first''\<rparr>,
          \<lparr>comment_id = Some ''c2'', message = ''second''\<rparr>,
          \<lparr>comment_id = Some ''c2'', message = ''second again''\<rparr>,
          \<lparr>comment_id = Some [], message = ''empty id''\<rparr>]
   \<and> map_of (comments (add_file_to_track_ct irregular_feed ''abc123'' example_comments)) ''abc123''
       = Some {''c1'', ''c2''}
   \<and> [] \<notin> {''c1'', ''c2''}"
  by (simp add: example_comments_def irregular_feed_def add_file_to_track_ct_def
        fetch_comments_def save_comments_def Let_def insert_commute)

text \<open>
  Claim C5, as the code has it. For an untracked file \<open>check_file_comments\<close> returns
  \<open>([], False)\<close> at once, with no fetch and no change of state. For a tracked file it
  returns, in the order of the fetch, the fetched comments whose id is not empty, is not in
  the stored seen-set and is not the id of an earlier comment of the same fetch; the flag
  tells whether that list is non-empty, and the seen-set becomes the stored one together
  with all non-empty fetched ids.
\<close>

theorem check_file_comments_new:
  "(map_of (comments s) k = None \<longrightarrow> check_file_comments client k s = (([], False), s))
   \<and> (map_of (comments s) k = Some seen \<longrightarrow>
        fst (fst (check_file_comments client k s)) =
          map (\<lambda>j. get_file_comments client k ! j)
            (filter (\<lambda>j. case comment_id (get_file_comments client k ! j) of
                            None \<Rightarrow> False
                          | Some i \<Rightarrow> i \<noteq> [] \<and> i \<notin> seen \<union> comment_ids (take j (get_file_comments client k)))
               [0..<length (get_file_comments client k)])
      \<and> snd (fst (check_file_comments client k s)) = (fst (fst (check_file_comments client k s)) \<noteq> [])
      \<and> map_of (comments (snd (check_file_comments client k s))) k
           = Some (seen \<union> comment_ids (get_file_comments client k)))"
proof (intro conjI impI)
  assume "map_of (comments s) k = None"
  then show "check_file_comments client k s = (([], False), s)"
    by (rule check_file_comments_untracked)
next
  assume tr: "map_of (comments s) k = Some seen"
  show "fst (fst (check_file_comments client k s)) =
          map (\<lambda>j. get_file_comments client k ! j)
            (filter (\<lambda>j. case comment_id (get_file_comments client k ! j) of
                            None \<Rightarrow> False
                          | Some i \<Rightarrow> i \<noteq> [] \<and> i \<notin> seen \<union> comment_ids (take j (get_file_comments client k)))
               [0..<length (get_file_comments client k)])"
    using snd_new_comments_loop[of "get_file_comments client k" seen "[]"]
    by (simp add: fst_check_file_comments[OF tr])
next
  assume tr: "map_of (comments s) k = Some seen"
  show "snd (fst (check_file_comments client k s)) = (fst (fst (check_file_comments client k s)) \<noteq> [])"
    by (simp add: fst_check_file_comments[OF tr])
next
  assume tr: "map_of (comments s) k = Some seen"
  show "map_of (comments (snd (check_file_comments client k s))) k
           = Some (seen \<union> comment_ids (get_file_comments client k))"
    by (simp add: comments_check_file_comments[OF tr] update_conv')
qed

theorem check_file_comments_new_witness:
  "map_of (comments example_comments) ''xyz789'' = None
   \<and> check_file_comments example_feed ''xyz789'' example_comments = (([], False), example_comments)
   \<and> map_of (comments example_comments) ''abc123'' = Some {''c1''}
   \<and> fst (check_file_comments example_feed ''abc123'' example_comments)
       = ([\<lparr>comment_id = Some ''c2'', message = ''second''\<rparr>], True)
   \<and> map_of (comments (snd (check_file_comments example_feed ''abc123'' example_comments))) ''abc123''
       = Some {''c1'', ''c2''}"
proof -
  have h0: "map_of (comments example_comments) ''xyz789'' = None"
    by (simp add: example_comments_def)
  have h1: "map_of (comments example_comments) ''abc123'' = Some {''c1''}"
    by (simp add: example_comments_def)
  have live: "get_file_comments example_feed ''abc123''
        = [\<lparr>comment_id = Some ''c1'', message = ''first''\<rparr>,
           \<lparr>comment_id = Some ''c2'', message = ''second''\<rparr>]"
    by (simp add: example_feed_def)
  note a = check_file_comments_new[of example_comments "''xyz789''" example_feed "{}"]
  note b = check_file_comments_new[of example_comments "''abc123''" example_feed "{''c1''}"]
  have a': "check_file_comments example_feed ''xyz789'' example_comments = (([], False), example_comments)"
    using a h0 by simp
  have b1: "fst (fst (check_file_comments example_feed ''abc123'' example_comments))
        = [\<lparr>comment_id = Some ''c2'', message = ''second''\<rparr>]"
    using b h1 unfolding live by (simp add: upt_rec)
  have b2: "snd (fst (check_file_comments example_feed ''abc123'' example_comments))"
    using b h1 b1 by simp
  have b3: "map_of (comments (snd (check_file_comments example_feed ''abc123'' example_comments))) ''abc123''
       = Some {''c1'', ''c2''}"
    using b h1 unfolding live by (simp add: insert_commute)
  show ?thesis
    using h0 a' h1 b1 b2 b3 by (simp add: prod_eq_iff)
qed

text \<open>
  The claim as it is worded (every fetched comment whose id is absent from the stored
  seen-set is returned) fails on a fetch that repeats an id: with the stored seen-set
  \<open>{c1}\<close>, only the first of the two comments with id \<open>c2\<close> is returned, and the
  comment with the empty id is skipped as well.
\<close>

theorem check_file_comments_new_counterexample:
  "map_of (comments example_comments) ''abc123'' = Some {''c1''}
   \<and> get_file_comments irregular_feed ''abc123''
       = [\<lparr>comment_id = Some ''c1'', message = ''first''\<rparr>,
          \<lparr>comment_id = Some ''c2'', message = ''second''\<rparr>,
          \<lparr>comment_id = Some ''c2'', message = ''second again''\<rparr>,
          \<lparr>comment_id = Some [], message = ''empty id''\<rparr>]
   \<and> ''c2'' \<notin> {''c1''}
   \<and> fst (check_file_comments irregular_feed ''abc123'' example_comments)
       = ([\<lparr>comment_id = Some ''c2'', message = ''second''\<rparr>], True)
   \<and> map_of (comments (snd (check_file_comments irregular_feed ''abc123'' example_comments))) ''abc123''
       = Some {''c1'', ''c2''}"
  by (simp add: example_comments_def irregular_feed_def check_file_comments_def
        fetch_comments_def save_comments_def insert_commute)

text \<open>
  Claim C6, as the code has it. \<open>reset_comments_for_file\<close> returns \<open>False\<close> and the
  unchanged state for an untracked file. For a tracked file it returns \<open>True\<close> and
  stores the empty seen-set; the check that follows returns, in the order of the fetch, the
  first live comment of each non-empty id (so each such id is reported by exactly one
  comment), and a further check against the same live comments returns nothing.
\<close>

theorem reset_comments_for_file_resync:
  "(map_of (comments s) k = None \<longrightarrow> reset_comments_for_file k s = (False, s))
   \<and> (map_of (comments s) k = Some seen \<longrightarrow>
        fst (reset_comments_for_file k s) = True
      \<and> map_of (comments (snd (reset_comments_for_file k s))) k = Some {}
      \<and> fst (fst (check_file_comments client k (snd (reset_comments_for_file k s)))) =
          map (\<lambda>j. get_file_comments client k ! j)
            (filter (\<lambda>j. case comment_id (get_file_comments client k ! j) of
                            None \<Rightarrow> False
                          | Some i \<Rightarrow> i \<noteq> [] \<and> i \<notin> comment_ids (take j (get_file_comments client k)))
               [0..<length (get_file_comments client k)])
      \<and> distinct (map comment_id (fst (fst (check_file_comments client k (snd (reset_comments_for_file k s))))))
      \<and> comment_id ` set (fst (fst (check_file_comments client k (snd (reset_comments_for_file k s)))))
          = Some ` comment_ids (get_file_comments client k)
      \<and> fst (check_file_comments client k
              (snd (check_file_comments client k (snd (reset_comments_for_file k s)))))
          = ([], False))"
proof (intro conjI impI)
  assume "map_of (comments s) k = None"
  then show "reset_comments_for_file k s = (False, s)"
    by (simp add: reset_comments_for_file_def)
next
  assume tr: "map_of (comments s) k = Some seen"
  show "fst (reset_comments_for_file k s) = True"
    by (simp add: comments_reset[OF tr])
next
  assume tr: "map_of (comments s) k = Some seen"
  show "map_of (comments (snd (reset_comments_for_file k s))) k = Some {}"
    by (simp add: comments_reset[OF tr] update_conv')
next
  assume tr: "map_of (comments s) k = Some seen"
  let ?cs = "get_file_comments client k"
  have e: "map_of (comments (snd (reset_comments_for_file k s))) k = Some {}"
    by (simp add: comments_reset[OF tr] update_conv')
  show "fst (fst (check_file_comments client k (snd (reset_comments_for_file k s)))) =
          map (\<lambda>j. ?cs ! j)
            (filter (\<lambda>j. case comment_id (?cs ! j) of
                            None \<Rightarrow> False
                          | Some i \<Rightarrow> i \<noteq> [] \<and> i \<notin> comment_ids (take j ?cs))
               [0..<length ?cs])"
    using snd_new_comments_loop[of ?cs "{}" "[]", unfolded Un_empty_left]
    by (simp add: fst_check_file_comments[OF e])
next
  assume tr: "map_of (comments s) k = Some seen"
  have e: "map_of (comments (snd (reset_comments_for_file k s))) k = Some {}"
    by (simp add: comments_reset[OF tr] update_conv')
  show "distinct (map comment_id (fst (fst (check_file_comments client k (snd (reset_comments_for_file k s))))))"
    using new_comments_loop_distinct[of "[]" "{}" "get_file_comments client k"]
    by (simp add: fst_check_file_comments[OF e])
next
  assume tr: "map_of (comments s) k = Some seen"
  have e: "map_of (comments (snd (reset_comments_for_file k s))) k = Some {}"
    by (simp add: comments_reset[OF tr] update_conv')
  show "comment_id ` set (fst (fst (check_file_comments client k (snd (reset_comments_for_file k s)))))
          = Some ` comment_ids (get_file_comments client k)"
    using new_comments_loop_ids[of "get_file_comments client k" "{}" "[]"]
    by (simp add: fst_check_file_comments[OF e])
next
  assume tr: "map_of (comments s) k = Some seen"
  let ?cs = "get_file_comments client k"
  let ?s1 = "snd (reset_comments_for_file k s)"
  have e: "map_of (comments ?s1) k = Some {}"
    by (simp add: comments_reset[OF tr] update_conv')
  have e2: "map_of (comments (snd (check_file_comments client k ?s1))) k = Some (comment_ids ?cs)"
    by (simp add: comments_check_file_comments[OF e] update_conv')
  show "fst (check_file_comments client k (snd (check_file_comments client k ?s1))) = ([], False)"
    by (simp add: fst_check_file_comments[OF e2] new_comments_loop_all_known)
qed

theorem reset_comments_for_file_resync_witness:
  "map_of (comments example_comments) ''xyz789'' = None
   \<and> reset_comments_for_file ''xyz789'' example_comments = (False, example_comments)
   \<and> map_of (comments example_comments) ''abc123'' = Some {''c1''}
   \<and> fst (reset_comments_for_file ''abc123'' example_comments) = True
   \<and> map_of (comments (snd (reset_comments_for_file ''abc123'' example_comments))) ''abc123'' = Some {}
   \<and> fst (fst (check_file_comments example_feed ''abc123''
                 (snd (reset_comments_for_file ''abc123'' example_comments))))
       = [\<lparr>comment_id = Some ''c1'', message = ''first''\<rparr>,
          \<lparr>comment_id = Some ''c2'', message = ''second''\<rparr>]
   \<and> fst (check_file_comments example_feed ''abc123''
            (snd (check_file_comments example_feed ''abc123''
                   (snd (reset_comments_for_file ''abc123'' example_comments)))))
       = ([], False)"
proof -
  have h0: "map_of (comments example_comments) ''xyz789'' = None"
    by (simp add: example_comments_def)
  have h1: "map_of (comments example_comments) ''abc123'' = Some {''c1''}"
    by (simp add: example_comments_def)
  have live: "get_file_comments example_feed ''abc123''
        = [\<lparr>comment_id = Some ''c1'', message = ''first''\<rparr>,
           \<lparr>comment_id = Some ''c2'', message = ''second''\<rparr>]"
    by (simp add: example_feed_def)
  note a = reset_comments_for_file_resync[of example_comments "''xyz789''" "{}" example_feed]
  note b = reset_comments_for_file_resync[of example_comments "''abc123''" "{''c1''}" example_feed]
  have a': "reset_comments_for_file ''xyz789'' example_comments = (False, example_comments)"
    using a h0 by simp
  have b1: "fst (fst (check_file_comments example_feed ''abc123''
                 (snd (reset_comments_for_file ''abc123'' example_comments))))
       = [\<lparr>comment_id = Some ''c1'', message = ''first''\<rparr>,
          \<lparr>comment_id = Some ''c2'', message = ''second''\<rparr>]"
    using b h1 unfolding live by (simp add: upt_rec)
  show ?thesis
    using h0 a' h1 b b1 by simp
qed

text \<open>
  The claim as it is worded (every live comment is reported after a reset) fails on live
  comments that repeat an id or carry an empty id: they are not reported.
\<close>

theorem reset_comments_for_file_resync_counterexample:
  "map_of (comments example_comments) ''abc123'' = Some {''c1''}
   \<and> get_file_comments irregular_feed ''abc123''
       = [\<lparr>comment_id = Some ''c1'', message = ''first''\<rparr>,
          \<lparr>comment_id = Some ''c2'', message = ''second''\<rparr>,
          \<lparr>comment_id = Some ''c2'', message = ''second again''\<rparr>,
          \<lparr>comment_id = Some [], message = ''empty id''\<rparr>]
   \<and> fst (reset_comments_for_file ''abc123'' example_comments) = True
   \<and> fst (check_file_comments irregular_feed ''abc123''
            (snd (reset_comments_for_file ''abc123'' example_comments)))
       = ([\<lparr>comment_id = Some ''c1'', message = ''first''\<rparr>,
           \<lparr>comment_id = Some ''c2'', message = ''second''\<rparr>], True)"
  by (simp add: example_comments_def irregular_feed_def reset_comments_for_file_def
        check_file_comments_def fetch_comments_def save_comments_def)

section \<open>Properties of the subscription manager\<close>

lemma map_entry_idem:
  "(\<And>v. f (f v) = f v) \<Longrightarrow> AList.map_entry k f (AList.map_entry k f xs) = AList.map_entry k f xs"
  by (induction xs) auto

lemma user_subscriptions_add:
  "user_subscriptions (add_file_subscription c k s) =
     AList.map_entry c (insert k)
       (case map_of (user_subscriptions s) c of
          None \<Rightarrow> AList.update c {} (user_subscriptions s)
        | Some _ \<Rightarrow> user_subscriptions s)"
  by (simp add: add_file_subscription_def save_subscriptions_def Let_def split: option.splits)

lemma comment_subscriptions_add_file:
  "comment_subscriptions (add_file_subscription c k s) = comment_subscriptions s"
  by (simp add: add_file_subscription_def save_subscriptions_def Let_def split: option.splits)

lemma map_of_user_subscriptions_add:
  "map_of (user_subscriptions (add_file_subscription c k s)) c =
     Some (insert k (case map_of (user_subscriptions s) c of None \<Rightarrow> {} | Some fs \<Rightarrow> fs))"
  by (simp add: user_subscriptions_add map_of_map_entry update_conv' split: option.splits)

lemma distinct_user_subscriptions_add:
  "distinct (map fst (user_subscriptions s)) \<Longrightarrow>
   distinct (map fst (user_subscriptions (add_file_subscription c k s)))"
  by (simp add: user_subscriptions_add distinct_map_entry distinct_update split: option.splits)

lemma distinct_user_subscriptions_remove:
  "distinct (map fst (user_subscriptions s)) \<Longrightarrow>
   distinct (map fst (user_subscriptions (snd (remove_file_subscription c k s))))"
  by (simp add: remove_file_subscription_def save_subscriptions_def Let_def
        distinct_map_entry distinct_delete split: option.splits)

lemma add_file_subscription_twice:
  "user_subscriptions (add_file_subscription c k (add_file_subscription c k s))
     = user_subscriptions (add_file_subscription c k s)"
proof -
  have "user_subscriptions (add_file_subscription c k (add_file_subscription c k s))
      = AList.map_entry c (insert k) (user_subscriptions (add_file_subscription c k s))"
    using map_of_user_subscriptions_add[of c k s]
    by (simp add: user_subscriptions_add[of c k "add_file_subscription c k s"])
  also have "\<dots> = user_subscriptions (add_file_subscription c k s)"
    by (simp add: user_subscriptions_add[of c k s] map_entry_idem)
  finally show ?thesis .
qed

lemma distinct_get_file_subscribers:
  "distinct (map fst (user_subscriptions s)) \<Longrightarrow> distinct (get_file_subscribers k s)"
  unfolding get_file_subscribers_def by (rule distinct_map_filter)

lemma mem_get_file_subscribers:
  "distinct (map fst (user_subscriptions s)) \<Longrightarrow>
   c \<in> set (get_file_subscribers k s) \<longleftrightarrow> (\<exists>fs. map_of (user_subscriptions s) c = Some fs \<and> k \<in> fs)"
  by (force simp: get_file_subscribers_def)

lemma count_distinct:
  "distinct xs \<Longrightarrow> x \<in> set xs \<Longrightarrow> count_list xs x = 1"
  by (induction xs) auto

lemma add_entry_nonempty:
  "\<forall>(c', fs) \<in> set xs. fs \<noteq> {} \<Longrightarrow>
   \<forall>(c', fs) \<in> set (AList.map_entry c (insert k)
                       (case map_of xs c of None \<Rightarrow> AList.update c {} xs | Some _ \<Rightarrow> xs)). fs \<noteq> {}"
proof (induction xs)
  case Nil
  show ?case by simp
next
  case (Cons p ps)
  show ?case
  proof (cases "fst p = c")
    case True
    then show ?thesis using Cons.prems by auto
  next
    case False
    have "\<forall>(c', fs) \<in> set ps. fs \<noteq> {}" using Cons.prems by simp
    from Cons.IH[OF this] show ?thesis
      using False Cons.prems by (cases "map_of ps c") auto
  qed
qed

lemma set_map_entry_subset:
  "map_of xs c = Some v \<Longrightarrow> set (AList.map_entry c f xs) \<subseteq> insert (c, f v) (set xs)"
  by (induction xs) (auto split: if_splits)

lemma remove_entry_nonempty:
  assumes "\<forall>(c', fs) \<in> set xs. fs \<noteq> {}" and "map_of xs c = Some v"
  shows "\<forall>(c', fs) \<in> set (case map_of (AList.map_entry c f xs) c of
                            Some fs \<Rightarrow> if fs = {} then AList.delete c (AList.map_entry c f xs)
                                       else AList.map_entry c f xs
                          | None \<Rightarrow> AList.map_entry c f xs). fs \<noteq> {}"
proof -
  let ?ys = "AList.map_entry c f xs"
  have look: "map_of ?ys c = Some (f v)"
    using assms(2) by (simp add: map_of_map_entry)
  have sub: "set ?ys \<subseteq> insert (c, f v) (set xs)"
    using assms(2) by (rule set_map_entry_subset)
  show ?thesis
  proof (cases "f v = {}")
    case True
    have "set (AList.delete c ?ys) \<subseteq> set xs"
      using sub by (auto simp: AList.delete_eq)
    then show ?thesis using look True assms(1) by auto
  next
    case False
    then show ?thesis using look sub assms(1) by auto
  qed
qed

lemma user_subscriptions_remove:
  "user_subscriptions (snd (remove_file_subscription c k s)) =
     (case map_of (user_subscriptions s) c of
        None \<Rightarrow> user_subscriptions s
      | Some fks \<Rightarrow>
          if k \<notin> fks then user_subscriptions s
          else (case map_of (AList.map_entry c (\<lambda>fs. fs - {k}) (user_subscriptions s)) c of
                  Some fs \<Rightarrow> if fs = {}
                             then AList.delete c (AList.map_entry c (\<lambda>fs. fs - {k}) (user_subscriptions s))
                             else AList.map_entry c (\<lambda>fs. fs - {k}) (user_subscriptions s)
                | None \<Rightarrow> AList.map_entry c (\<lambda>fs. fs - {k}) (user_subscriptions s)))"
  by (simp add: remove_file_subscription_def save_subscriptions_def Let_def split: option.splits)

lemma comment_subscriptions_remove_file:
  "comment_subscriptions (snd (remove_file_subscription c k s)) = comment_subscriptions s"
  by (simp add: remove_file_subscription_def save_subscriptions_def Let_def split: option.splits)

lemma comment_subscriptions_add:
  "comment_subscriptions (add_comment_subscription c k s) =
     AList.map_entry c (insert k)
       (case map_of (comment_subscriptions s) c of
          None \<Rightarrow> AList.update c {} (comment_subscriptions s)
        | Some _ \<Rightarrow> comment_subscriptions s)"
  by (simp add: add_comment_subscription_def save_subscriptions_def Let_def split: option.splits)

lemma user_subscriptions_add_comment:
  "user_subscriptions (add_comment_subscription c k s) = user_subscriptions s"
  by (simp add: add_comment_subscription_def save_subscriptions_def Let_def split: option.splits)

lemma comment_subscriptions_remove:
  "comment_subscriptions (snd (remove_comment_subscription c k s)) =
     (case map_of (comment_subscriptions s) c of
        None \<Rightarrow> comment_subscriptions s
      | Some fks \<Rightarrow>
          if k \<notin> fks then comment_subscriptions s
          else (case map_of (AList.map_entry c (\<lambda>fs. fs - {k}) (comment_subscriptions s)) c of
                  Some fs \<Rightarrow> if fs = {}
                             then AList.delete c (AList.map_entry c (\<lambda>fs. fs - {k}) (comment_subscriptions s))
                             else AList.map_entry c (\<lambda>fs. fs - {k}) (comment_subscriptions s)
                | None \<Rightarrow> AList.map_entry c (\<lambda>fs. fs - {k}) (comment_subscriptions s)))"
  by (simp add: remove_comment_subscription_def save_subscriptions_def Let_def split: option.splits)

lemma user_subscriptions_remove_comment:
  "user_subscriptions (snd (remove_comment_subscription c k s)) = user_subscriptions s"
  by (simp add: remove_comment_subscription_def save_subscriptions_def Let_def split: option.splits)

lemma run_call_nonempty:
  assumes "\<forall>(c, fs) \<in> set (user_subscriptions s). fs \<noteq> {}"
    and "\<forall>(c, fs) \<in> set (comment_subscriptions s). fs \<noteq> {}"
  shows "(\<forall>(c, fs) \<in> set (user_subscriptions (run_call x s)). fs \<noteq> {})
       \<and> (\<forall>(c, fs) \<in> set (comment_subscriptions (run_call x s)). fs \<noteq> {})"
proof (cases x)
  case (Add_file_subscription c k)
  then show ?thesis
    using add_entry_nonempty[OF assms(1), of c k] assms(2)
    by (simp add: user_subscriptions_add comment_subscriptions_add_file)
next
  case (Remove_file_subscription c k)
  have "\<forall>(c', fs) \<in> set (user_subscriptions (snd (remove_file_subscription c k s))). fs \<noteq> {}"
  proof (cases "map_of (user_subscriptions s) c")
    case None
    then show ?thesis using assms(1) by (simp add: user_subscriptions_remove)
  next
    case (Some fks)
    show ?thesis
      using remove_entry_nonempty[OF assms(1) Some, of "\<lambda>fs. fs - {k}"] assms(1) Some
      by (simp add: user_subscriptions_remove)
  qed
  then show ?thesis
    using Remove_file_subscription assms(2) by (simp add: comment_subscriptions_remove_file)
next
  case (Add_comment_subscription c k)
  then show ?thesis
    using add_entry_nonempty[OF assms(2), of c k] assms(1)
    by (simp add: comment_subscriptions_add user_subscriptions_add_comment)
next
  case (Remove_comment_subscription c k)
  have "\<forall>(c', fs) \<in> set (comment_subscriptions (snd (remove_comment_subscription c k s))). fs \<noteq> {}"
  proof (cases "map_of (comment_subscriptions s) c")
    case None
    then show ?thesis using assms(2) by (simp add: comment_subscriptions_remove)
  next
    case (Some fks)
    show ?thesis
      using remove_entry_nonempty[OF assms(2) Some, of "\<lambda>fs. fs - {k}"] assms(2) Some
      by (simp add: comment_subscriptions_remove)
  qed
  then show ?thesis
    using Remove_comment_subscription assms(1) by (simp add: user_subscriptions_remove_comment)
qed

lemma run_calls_nonempty:
  "\<forall>(c, fs) \<in> set (user_subscriptions s). fs \<noteq> {} \<Longrightarrow>
   \<forall>(c, fs) \<in> set (comment_subscriptions s). fs \<noteq> {} \<Longrightarrow>
   (\<forall>(c, fs) \<in> set (user_subscriptions (run_calls xs s)). fs \<noteq> {})
   \<and> (\<forall>(c, fs) \<in> set (comment_subscriptions (run_calls xs s)). fs \<noteq> {})"
proof (induction xs arbitrary: s)
  case Nil
  then show ?case by simp
next
  case (Cons x xs)
  from run_call_nonempty[OF Cons.prems, of x]
  show ?case using Cons.IH[of "run_call x s"] by simp
qed

text \<open>
  Claim C7. Calling \<open>add_file_subscription\<close> twice with the same chat id and file key
  leaves both subscription dicts as one call does. In a dict (keys pairwise different)
  the keys stay pairwise different, the subscriber is listed exactly once by
  \<open>get_file_subscribers\<close> for that file, and \<open>get_file_subscribers\<close> lists no chat id twice
  for any file.
\<close>

theorem add_file_subscription_idempotent:
  "user_subscriptions (add_file_subscription c k (add_file_subscription c k s))
     = user_subscriptions (add_file_subscription c k s)
   \<and> comment_subscriptions (add_file_subscription c k (add_file_subscription c k s))
     = comment_subscriptions (add_file_subscription c k s)
   \<and> (distinct (map fst (user_subscriptions s)) \<longrightarrow>
        distinct (map fst (user_subscriptions (add_file_subscription c k (add_file_subscription c k s))))
      \<and> count_list (get_file_subscribers k (add_file_subscription c k (add_file_subscription c k s))) c = 1
      \<and> distinct (get_file_subscribers k' s))"
proof (intro conjI impI)
  show "user_subscriptions (add_file_subscription c k (add_file_subscription c k s))
     = user_subscriptions (add_file_subscription c k s)"
    by (rule add_file_subscription_twice)
next
  show "comment_subscriptions (add_file_subscription c k (add_file_subscription c k s))
     = comment_subscriptions (add_file_subscription c k s)"
    by (simp add: comment_subscriptions_add_file)
next
  let ?s2 = "add_file_subscription c k (add_file_subscription c k s)"
  assume d: "distinct (map fst (user_subscriptions s))"
  then show d2: "distinct (map fst (user_subscriptions ?s2))"
    by (intro distinct_user_subscriptions_add)
  have "c \<in> set (get_file_subscribers k ?s2)"
    using map_of_user_subscriptions_add[of c k "add_file_subscription c k s"]
    by (simp add: mem_get_file_subscribers[OF d2])
  then show "count_list (get_file_subscribers k ?s2) c = 1"
    using distinct_get_file_subscribers[OF d2] by (simp add: count_distinct)
  show "distinct (get_file_subscribers k' s)"
    using d by (rule distinct_get_file_subscribers)
qed

theorem add_file_subscription_idempotent_witness:
  "distinct (map fst (user_subscriptions example_manager))
   \<and> user_subscriptions (add_file_subscription 9 ''abc123'' (add_file_subscription 9 ''abc123'' example_manager))
       = user_subscriptions (add_file_subscription 9 ''abc123'' example_manager)
   \<and> user_subscriptions (add_file_subscription 9 ''abc123'' example_manager)
       = [(7, {''abc123''}), (8, {''abc123'', ''def456''}), (9, {''abc123''})]
   \<and> count_list (get_file_subscribers ''abc123''
         (add_file_subscription 9 ''abc123'' (add_file_subscription 9 ''abc123'' example_manager))) 9 = 1
   \<and> distinct (get_file_subscribers ''abc123'' example_manager)"
proof -
  have h: "distinct (map fst (user_subscriptions example_manager))"
    by (simp add: example_manager_def)
  have once: "user_subscriptions (add_file_subscription 9 ''abc123'' example_manager)
       = [(7, {''abc123''}), (8, {''abc123'', ''def456''}), (9, {''abc123''})]"
    by (simp add: example_manager_def add_file_subscription_def save_subscriptions_def)
  show ?thesis
    using add_file_subscription_idempotent[of 9 "''abc123''" example_manager "''abc123''"] h once
    by simp
qed

text \<open>
  Claim C10. After any sequence of calls of the four mutating methods on a new manager,
  every entry of \<open>user_subscriptions\<close> and of \<open>comment_subscriptions\<close> has a non-empty
  set; a removal that takes the last file key of a chat id deletes the entry of that chat
  id.
\<close>

theorem subscriptions_never_empty:
  "(\<forall>(chat_id, file_keys) \<in> set (user_subscriptions (run_calls xs new_manager)). file_keys \<noteq> {})
   \<and> (\<forall>(chat_id, file_keys) \<in> set (comment_subscriptions (run_calls xs new_manager)). file_keys \<noteq> {})
   \<and> (map_of (user_subscriptions s) c = Some {k} \<longrightarrow>
        map_of (user_subscriptions (snd (remove_file_subscription c k s))) c = None)
   \<and> (map_of (comment_subscriptions s) c = Some {k} \<longrightarrow>
        map_of (comment_subscriptions (snd (remove_comment_subscription c k s))) c = None)"
proof -
  have "(\<forall>(chat_id, file_keys) \<in> set (user_subscriptions (run_calls xs new_manager)). file_keys \<noteq> {})
   \<and> (\<forall>(chat_id, file_keys) \<in> set (comment_subscriptions (run_calls xs new_manager)). file_keys \<noteq> {})"
    by (rule run_calls_nonempty) (simp_all add: new_manager_def)
  moreover have "map_of (user_subscriptions s) c = Some {k} \<longrightarrow>
        map_of (user_subscriptions (snd (remove_file_subscription c k s))) c = None"
    by (simp add: user_subscriptions_remove map_of_map_entry delete_conv')
  moreover have "map_of (comment_subscriptions s) c = Some {k} \<longrightarrow>
        map_of (comment_subscriptions (snd (remove_comment_subscription c k s))) c = None"
    by (simp add: comment_subscriptions_remove map_of_map_entry delete_conv')
  ultimately show ?thesis by simp
qed

theorem subscriptions_never_empty_witness:
  "user_subscriptions (run_calls example_calls new_manager) = [(7, {''def456''})]
   \<and> comment_subscriptions (run_calls example_calls new_manager) = []
   \<and> (7, {''def456''}) \<in> set (user_subscriptions (run_calls example_calls new_manager))
   \<and> {''def456''} \<noteq> ({} :: string set)
   \<and> map_of (user_subscriptions (run_calls example_calls new_manager)) 7 = Some {''def456''}
   \<and> map_of (user_subscriptions
         (snd (remove_file_subscription 7 ''def456'' (run_calls example_calls new_manager)))) 7 = None
   \<and> map_of (comment_subscriptions (run_calls [Add_comment_subscription 7 ''abc123''] new_manager)) 7
       = Some {''abc123''}
   \<and> map_of (comment_subscriptions
         (snd (remove_comment_subscription 7 ''abc123''
                (run_calls [Add_comment_subscription 7 ''abc123''] new_manager)))) 7 = None"
proof -
  have u: "user_subscriptions (run_calls example_calls new_manager) = [(7, {''def456''})]"
    by (simp add: example_calls_def new_manager_def add_file_subscription_def
          add_comment_subscription_def remove_file_subscription_def remove_comment_subscription_def
          save_subscriptions_def insert_Diff_if)
  have cm: "comment_subscriptions (run_calls example_calls new_manager) = []"
    by (simp add: example_calls_def new_manager_def add_file_subscription_def
          add_comment_subscription_def remove_file_subscription_def remove_comment_subscription_def
          save_subscriptions_def)
  have c1: "map_of (comment_subscriptions (run_calls [Add_comment_subscription 7 ''abc123''] new_manager)) 7
       = Some {''abc123''}"
    by (simp add: new_manager_def add_comment_subscription_def save_subscriptions_def)
  have m: "map_of (user_subscriptions (run_calls example_calls new_manager)) 7 = Some {''def456''}"
    by (simp add: u)
  note a = subscriptions_never_empty[of example_calls "run_calls example_calls new_manager" 7 "''def456''"]
  note b = subscriptions_never_empty[of example_calls
              "run_calls [Add_comment_subscription 7 ''abc123''] new_manager" 7 "''abc123''"]
  have "(7, {''def456''}) \<in> set (user_subscriptions (run_calls example_calls new_manager))"
    by (simp add: u)
  then have ne: "{''def456''} \<noteq> ({} :: string set)"
    using a by blast
  show ?thesis
    using a b u cm c1 m ne by simp
qed

end
